theory Spec2Isabelle
  imports Main "HOL-Library.Product_Lexorder" "HOL-Library.List_Lexorder"
begin

section \<open>Errors\<close>

text \<open>
  Every way the modelled code can fail is a value of this type: a failed \<open>assert\<close>,
  an out-of-range vector access (undefined behaviour in C++), the exception thrown for a
  singular transformation matrix, and dereferencing the begin iterator of an empty range
  (undefined behaviour as well).
\<close>

datatype error = AssertionFailed | OutOfRange | BadTransformationMatrix | EmptyRange

section \<open>Permutation (include/casm/container/Permutation.hh)\<close>

text \<open>
  A \<open>Permutation\<close> wraps \<open>std::vector<Index> m_perm_array\<close>. \<open>Index\<close> is a signed
  integer in the source; the entries are modelled as natural numbers, the only values
  \<open>is_perm\<close> accepts.
\<close>

type_synonym Permutation = "nat list"

definition size_perm :: "Permutation \<Rightarrow> nat" where
  "size_perm p = length p"

text \<open>
  Modelled from the spec: \<open>Permutation::is_perm\<close> is only declared in the header; its
  body is not among the sources. The declaration's comment reads: checks that
  \<open>m_perm_array\<close> contains values from 0 to \<open>m_perm_array.size()-1\<close> and that no value
  is repeated.
\<close>

definition is_perm :: "Permutation \<Rightarrow> bool" where
  "is_perm p = (list_all (\<lambda>j. j < size_perm p) p \<and> distinct p)"

text \<open>
  \<open>Permutation::permute\<close>: after the size assertion, the loop pushes
  \<open>before_vec[m_perm_array[i]]\<close> for \<open>i = 0 .. size()-1\<close>. The recursion runs over the
  entries of the permutation array that are still to be visited.
\<close>

fun permute_loop :: "'a list \<Rightarrow> nat list \<Rightarrow> 'a list \<Rightarrow> error + 'a list" where
  "permute_loop before_vec [] after_vec = Inr after_vec"
| "permute_loop before_vec (j # js) after_vec =
     (if j < length before_vec
      then permute_loop before_vec js (after_vec @ [before_vec ! j])
      else Inl OutOfRange)"

definition permute :: "Permutation \<Rightarrow> 'a list \<Rightarrow> error + 'a list" where
  "permute p before_vec =
     (if length before_vec \<noteq> size_perm p then Inl AssertionFailed
      else permute_loop before_vec p [])"

text \<open>
  \<open>Permutation::ipermute\<close>: \<open>after_array\<close> starts as a copy of \<open>before_array\<close>; for
  every \<open>i\<close> with \<open>i != m_perm_array[i]\<close> the loop stores \<open>before_array[i]\<close> at
  position \<open>m_perm_array[i]\<close>. The second argument is the loop counter \<open>i\<close>, the third
  the entries \<open>m_perm_array[i], m_perm_array[i+1], ...\<close> still to be visited.
\<close>

fun ipermute_loop :: "'a list \<Rightarrow> nat \<Rightarrow> nat list \<Rightarrow> 'a list \<Rightarrow> error + 'a list" where
  "ipermute_loop before_array i [] after_array = Inr after_array"
| "ipermute_loop before_array i (j # js) after_array =
     (if i \<noteq> j
      then (if j < length after_array
            then ipermute_loop before_array (Suc i) js (after_array[j := before_array ! i])
            else Inl OutOfRange)
      else ipermute_loop before_array (Suc i) js after_array)"

definition ipermute :: "Permutation \<Rightarrow> 'a list \<Rightarrow> error + 'a list" where
  "ipermute p before_array =
     (if length before_array \<noteq> size_perm p then Inl AssertionFailed
      else ipermute_loop before_array 0 p before_array)"

section \<open>Integer vectors and matrices\<close>

text \<open>
  \<open>LatticePointWithin_f::vector_type\<close> and \<open>matrix_type\<close> are Eigen matrices of
  \<open>long\<close> with 3 and 3x3 entries. A matrix is the triple of its rows. Signed overflow of
  \<open>long\<close> is undefined behaviour in the source; the entries are modelled as unbounded
  integers.
\<close>

type_synonym vector_type = "int \<times> int \<times> int"
type_synonym matrix_type = "vector_type \<times> vector_type \<times> vector_type"

fun vec_add :: "vector_type \<Rightarrow> vector_type \<Rightarrow> vector_type" where
  "vec_add (x, y, z) (u, v, w) = (x + u, y + v, z + w)"

fun vec_sub :: "vector_type \<Rightarrow> vector_type \<Rightarrow> vector_type" where
  "vec_sub (x, y, z) (u, v, w) = (x - u, y - v, z - w)"

fun vec_neg :: "vector_type \<Rightarrow> vector_type" where
  "vec_neg (x, y, z) = (- x, - y, - z)"

fun vec_scale :: "int \<Rightarrow> vector_type \<Rightarrow> vector_type" where
  "vec_scale n (x, y, z) = (n * x, n * y, n * z)"

fun vec_mod :: "vector_type \<Rightarrow> int \<Rightarrow> vector_type" where
  "vec_mod (x, y, z) n = (x mod n, y mod n, z mod n)"

fun vec_div :: "vector_type \<Rightarrow> int \<Rightarrow> vector_type" where
  "vec_div (x, y, z) n = (x div n, y div n, z div n)"

fun mat_vec :: "matrix_type \<Rightarrow> vector_type \<Rightarrow> vector_type" where
  "mat_vec ((a, b, c), (d, e, f), (g, h, i)) (x, y, z) =
     (a * x + b * y + c * z, d * x + e * y + f * z, g * x + h * y + i * z)"

fun mat_mul :: "matrix_type \<Rightarrow> matrix_type \<Rightarrow> matrix_type" where
  "mat_mul ((a, b, c), (d, e, f), (g, h, i)) ((a', b', c'), (d', e', f'), (g', h', i')) =
     ((a * a' + b * d' + c * g', a * b' + b * e' + c * h', a * c' + b * f' + c * i'),
      (d * a' + e * d' + f * g', d * b' + e * e' + f * h', d * c' + e * f' + f * i'),
      (g * a' + h * d' + i * g', g * b' + h * e' + i * h', g * c' + h * f' + i * i'))"

fun determinant :: "matrix_type \<Rightarrow> int" where
  "determinant ((a, b, c), (d, e, f), (g, h, i)) =
     a * (e * i - f * h) - b * (d * i - f * g) + c * (d * h - e * g)"

text \<open>
  Modelled from the spec: \<open>adjugate\<close> comes from \<open>casm/misc/CASM_Eigen_math.hh\<close>,
  which is not among the sources. The header of \<open>LatticePointWithin_f\<close> documents it as
  \<open>adjugate(T) = det(T) * inverse(T)\<close>, the transposed matrix of cofactors.
\<close>

fun adjugate :: "matrix_type \<Rightarrow> matrix_type" where
  "adjugate ((a, b, c), (d, e, f), (g, h, i)) =
     ((e * i - f * h, c * h - b * i, b * f - c * e),
      (f * g - d * i, a * i - c * g, c * d - a * f),
      (d * h - e * g, b * g - a * h, a * e - b * d))"

definition identity_matrix :: matrix_type where
  "identity_matrix = ((1, 0, 0), (0, 1, 0), (0, 0, 1))"

fun diagonal :: "matrix_type \<Rightarrow> vector_type" where
  "diagonal ((a, b, c), (d, e, f), (g, h, i)) = (a, e, i)"

fun is_diagonal :: "matrix_type \<Rightarrow> bool" where
  "is_diagonal ((a, b, c), (d, e, f), (g, h, i)) =
     (b = 0 \<and> c = 0 \<and> d = 0 \<and> f = 0 \<and> g = 0 \<and> h = 0)"

section \<open>LatticePointWithin_f (lattice point reduction)\<close>

record LatticePointWithin_f =
  m_transformation_matrix :: matrix_type
  m_transformation_matrix_adjugate :: matrix_type
  m_total_lattice_points_in_superlattice :: int

text \<open>
  Modelled from the spec: \<open>_throw_if_bad_transformation_matrix\<close> is only declared; its
  comment reads: throws exception if the transformation matrix has determinant 0.
\<close>

definition throw_if_bad_transformation_matrix :: "matrix_type \<Rightarrow> error + unit" where
  "throw_if_bad_transformation_matrix transformation_matrix =
     (if determinant transformation_matrix = 0 then Inl BadTransformationMatrix else Inr ())"

text \<open>
  The constructor: the member initialisers store the matrix, its adjugate and its
  determinant; the body then calls \<open>_throw_if_bad_transformation_matrix\<close> on the stored
  matrix. An exception leaves no object behind.
\<close>

definition make_LatticePointWithin_f :: "matrix_type \<Rightarrow> error + LatticePointWithin_f" where
  "make_LatticePointWithin_f superlattice_transformation_matrix =
     (let this = \<lparr> m_transformation_matrix = superlattice_transformation_matrix,
                   m_transformation_matrix_adjugate = adjugate superlattice_transformation_matrix,
                   m_total_lattice_points_in_superlattice =
                     determinant superlattice_transformation_matrix \<rparr>
      in case throw_if_bad_transformation_matrix (m_transformation_matrix this) of
           Inl e \<Rightarrow> Inl e
         | Inr _ \<Rightarrow> Inr this)"

text \<open>
  Modelled from the spec: the body of \<open>LatticePointWithin_f::operator()\<close> is not among
  the sources. The spec (4.1): use the adjugate of T to express the coordinate in a scaled
  basis, apply component-wise modulo reduction by det(T), and map back, all in integer
  arithmetic. The modulo is the one with a non-negative result for a positive modulus:
  the spec's scenario sends (-1,0,0) to (1,0,0) for T = diag(2,2,2). Mapping back
  multiplies by T and divides by det(T).
\<close>

definition bring_within :: "LatticePointWithin_f \<Rightarrow> vector_type \<Rightarrow> vector_type" where
  "bring_within this ijk =
     (let vec2 = mat_vec (m_transformation_matrix_adjugate this) ijk;
          det = m_total_lattice_points_in_superlattice this;
          vec2 = vec_mod vec2 det
      in vec_div (mat_vec (m_transformation_matrix this) vec2) det)"

section \<open>OrderedLatticePointGenerator\<close>

text \<open>
  The class is declared in the header with its members; the bodies of its constructor,
  of \<open>operator()\<close> and of the two private helpers are not among the sources.
  \<open>int m_stride[2]\<close> is the pair of strides.
\<close>

record OrderedLatticePointGenerator =
  m_total_lattice_points :: int
  m_bring_within_f :: LatticePointWithin_f
  m_smith_normal_U :: matrix_type
  m_smith_normal_S :: matrix_type
  m_smith_normal_V :: matrix_type
  m_stride :: "int \<times> int"

text \<open>
  Modelled from the spec: the Smith normal form routine is not among the sources. The
  spec (3) and the member comments describe its result: integer matrices with
  \<open>T = U * S * V\<close>, \<open>S\<close> diagonal, \<open>U\<close> and \<open>V\<close> unimodular. The predicate admits
  determinant -1 as well as 1 for \<open>U\<close> and \<open>V\<close>, and asks for the positive diagonal
  that the stride extents of the spec (4.2) presuppose.
\<close>

definition is_smith_normal_form ::
  "matrix_type \<Rightarrow> matrix_type \<times> matrix_type \<times> matrix_type \<Rightarrow> bool" where
  "is_smith_normal_form T USV =
     (case USV of (U, S, V) \<Rightarrow>
        T = mat_mul U (mat_mul S V) \<and> \<bar>determinant U\<bar> = 1 \<and> \<bar>determinant V\<bar> = 1 \<and>
        is_diagonal S \<and>
        (case diagonal S of (s1, s2, s3) \<Rightarrow> 0 < s1 \<and> 0 < s2 \<and> 0 < s3))"

text \<open>
  Modelled from the spec: the constructor of \<open>OrderedLatticePointGenerator\<close>. The spec
  (4.2): \<open>size() = |det(T)|\<close>; compute the Smith normal form \<open>T = U_s * S_s * V_s\<close>; the
  diagonal of \<open>S_s\<close> yields the stride extents. The member comment gives the strides:
  \<open>l = m + n*stride[0] + p*stride[1]\<close>. The members are initialised in the order of
  their declaration, so the \<open>LatticePointWithin_f\<close> member is constructed, and may
  throw, before the decomposition is stored. The Smith normal form routine is a parameter.
\<close>

definition make_OrderedLatticePointGenerator ::
  "(matrix_type \<Rightarrow> matrix_type \<times> matrix_type \<times> matrix_type) \<Rightarrow> matrix_type \<Rightarrow>
   error + OrderedLatticePointGenerator" where
  "make_OrderedLatticePointGenerator smith_normal_form transformation_matrix =
     (case make_LatticePointWithin_f transformation_matrix of
        Inl e \<Rightarrow> Inl e
      | Inr w \<Rightarrow>
          (case smith_normal_form transformation_matrix of (U, S, V) \<Rightarrow>
             (case diagonal S of (s1, s2, s3) \<Rightarrow>
                Inr \<lparr> m_total_lattice_points = \<bar>determinant transformation_matrix\<bar>,
                      m_bring_within_f = w,
                      m_smith_normal_U = U,
                      m_smith_normal_S = S,
                      m_smith_normal_V = V,
                      m_stride = (s1, s1 * s2) \<rparr>)))"

text \<open>\<open>OrderedLatticePointGenerator::size\<close>, defined in the header.\<close>

definition size_olpg :: "OrderedLatticePointGenerator \<Rightarrow> int" where
  "size_olpg this = m_total_lattice_points this"

text \<open>
  Modelled from the spec: the body of \<open>_make_smith_normal_form_lattice_point\<close> is not
  among the sources. The spec (4.2): a linear index decomposes via mixed-radix arithmetic
  into a triplet (m, n, p) bounded by the extents; the member comment:
  \<open>l = m + n*stride[0] + p*stride[1]\<close>.
\<close>

definition make_smith_normal_form_lattice_point ::
  "OrderedLatticePointGenerator \<Rightarrow> int \<Rightarrow> vector_type" where
  "make_smith_normal_form_lattice_point this ix =
     (case m_stride this of (stride0, stride1) \<Rightarrow>
        ((ix mod stride1) mod stride0, (ix mod stride1) div stride0, ix div stride1))"

text \<open>
  Modelled from the spec: the body of \<open>_normalize_lattice_point\<close> is not among the
  sources. Its declaration's comment: \<open>U*mnp = ijk\<close>.
\<close>

definition normalize_lattice_point ::
  "OrderedLatticePointGenerator \<Rightarrow> vector_type \<Rightarrow> vector_type" where
  "normalize_lattice_point this mnp = mat_vec (m_smith_normal_U this) mnp"

text \<open>
  Modelled from the spec: the body of \<open>OrderedLatticePointGenerator::operator()\<close> is not
  among the sources. The spec (4.2): the triplet is a lattice point in the Smith-normal
  coordinate system; multiply by \<open>U_s\<close> to convert into the tiling-unit coordinate
  system, then apply the lattice point reduction.
\<close>

definition lattice_point :: "OrderedLatticePointGenerator \<Rightarrow> int \<Rightarrow> vector_type" where
  "lattice_point this ix =
     (let mnp = make_smith_normal_form_lattice_point this ix;
          ijk = normalize_lattice_point this mnp
      in bring_within (m_bring_within_f this) ijk)"

subsection \<open>A concrete supercell\<close>

text \<open>
  The supercell of the spec's end-to-end scenario, \<open>T = diag(2,2,2)\<close>. A diagonal matrix
  with positive entries is its own Smith normal form, with identity \<open>U\<close> and \<open>V\<close>.
\<close>

definition diag222 :: matrix_type where
  "diag222 = ((2, 0, 0), (0, 2, 0), (0, 0, 2))"

definition trivial_smith_normal_form ::
  "matrix_type \<Rightarrow> matrix_type \<times> matrix_type \<times> matrix_type" where
  "trivial_smith_normal_form T = (identity_matrix, T, identity_matrix)"

section \<open>Clusters of lattice sites\<close>

text \<open>
  The comparators of \<open>ClusterSymCompare_impl\<close> are templates over an \<open>Element\<close>; the
  file instantiates them for \<open>IntegralCluster\<close>, a vector of \<open>UnitCellCoord\<close> together
  with a pointer to the primitive structure. A \<open>UnitCellCoord\<close> is a sublattice index
  \<open>b\<close> and a unit cell \<open>(i, j, k)\<close>.
\<close>

type_synonym UnitCell = vector_type
type_synonym UnitCellCoord = "nat \<times> UnitCell"

definition sublat :: "UnitCellCoord \<Rightarrow> nat" where
  "sublat bijk = fst bijk"

definition unitcell :: "UnitCellCoord \<Rightarrow> UnitCell" where
  "unitcell bijk = snd bijk"

record IntegralCluster =
  m_prim_ptr :: nat
  m_element :: "UnitCellCoord list"

text \<open>
  The cluster class itself and \<open>traits<Element>::position\<close> are not among the
  sources; the next definitions give the operations of a cluster that the comparators
  call.
\<close>

text \<open>Modelled from the spec: \<open>size()\<close>, the number of constituents (spec 3).\<close>

definition size_cluster :: "IntegralCluster \<Rightarrow> nat" where
  "size_cluster obj = length (m_element obj)"

text \<open>
  Modelled from the spec: \<open>sort()\<close> puts the constituents into canonical internal
  order (spec 3). The order on sites is not in the sources either; it is taken to be the
  lexicographic order on \<open>(b, i, j, k)\<close>.
\<close>

definition sort_cluster :: "IntegralCluster \<Rightarrow> IntegralCluster" where
  "sort_cluster obj = obj \<lparr> m_element := sort (m_element obj) \<rparr>"

text \<open>
  Modelled from the spec: \<open>A < B\<close> on clusters, a strict weak order over the internal
  representation (spec 4.3); here the lexicographic order on the site vectors.
\<close>

definition cluster_less :: "IntegralCluster \<Rightarrow> IntegralCluster \<Rightarrow> bool" where
  "cluster_less A B = (m_element A < m_element B)"

text \<open>
  Modelled from the spec: \<open>traits<Element>::position\<close>, the lattice coordinate of the
  first constituent (spec 4.3; the source comments: translates so that \<open>obj[0]\<close> is in
  the origin unit cell). The comparators call it on non-empty clusters only.
\<close>

definition position :: "IntegralCluster \<Rightarrow> UnitCellCoord" where
  "position el = hd (m_element el)"

text \<open>
  Modelled from the spec: \<open>obj + trans\<close> and \<open>obj - trans\<close>, the translation of every
  site of the cluster by a unit cell (spec 4.3, spatial_prepare).
\<close>

definition cluster_plus :: "IntegralCluster \<Rightarrow> UnitCell \<Rightarrow> IntegralCluster" where
  "cluster_plus obj shift =
     obj \<lparr> m_element := map (\<lambda>bijk. (sublat bijk, vec_add (unitcell bijk) shift)) (m_element obj) \<rparr>"

definition cluster_minus :: "IntegralCluster \<Rightarrow> UnitCell \<Rightarrow> IntegralCluster" where
  "cluster_minus obj shift =
     obj \<lparr> m_element := map (\<lambda>bijk. (sublat bijk, vec_sub (unitcell bijk) shift)) (m_element obj) \<rparr>"

section \<open>The SymCompare family (ClusterSymCompare_impl)\<close>

text \<open>
  A comparator is a class deriving from the \<open>SymCompare\<close> base through static
  polymorphism: it supplies the four \<open>_impl\<close> methods, the base supplies \<open>prepare\<close>,
  \<open>compare\<close> and \<open>equal\<close>. The record holds the four methods of one comparator.
  \<open>spatial_prepare_impl\<close> also writes the mutable member \<open>m_spatial_transform\<close>: the
  first component of its result is the translation written (in lattice coordinates; the
  source stores its Cartesian image under the lattice's column matrix), \<open>None\<close> when the
  member is left as it was.
\<close>

record 'e SymCompare =
  spatial_prepare_impl :: "'e \<Rightarrow> UnitCell option \<times> 'e"
  representation_prepare_impl :: "'e \<Rightarrow> 'e"
  invariants_compare_impl :: "'e \<Rightarrow> 'e \<Rightarrow> bool"
  compare_impl :: "'e \<Rightarrow> 'e \<Rightarrow> bool"

text \<open>
  The base class \<open>SymCompare\<close> is not among the sources; the next definitions give its
  methods as the spec (4.3) states them.
\<close>

text \<open>
  Modelled from the spec: \<open>spatial_prepare(obj)\<close> removes the spatial redundancy; it
  returns what the comparator's \<open>spatial_prepare_impl\<close> returns.
\<close>

definition spatial_prepare :: "'e SymCompare \<Rightarrow> 'e \<Rightarrow> 'e" where
  "spatial_prepare sc obj = snd (spatial_prepare_impl sc obj)"

text \<open>
  Modelled from the spec: \<open>representation_prepare(obj)\<close> normalizes the internal
  representation; it returns what the comparator's \<open>representation_prepare_impl\<close>
  returns.
\<close>

definition representation_prepare :: "'e SymCompare \<Rightarrow> 'e \<Rightarrow> 'e" where
  "representation_prepare sc obj = representation_prepare_impl sc obj"

text \<open>
  Modelled from the spec: \<open>prepare(obj) = representation_prepare(spatial_prepare(obj))\<close>.
\<close>

definition prepare :: "'e SymCompare \<Rightarrow> 'e \<Rightarrow> 'e" where
  "prepare sc obj = representation_prepare sc (spatial_prepare sc obj)"

text \<open>
  Modelled from the spec: \<open>compare(A, B)\<close> is \<open>invariants_compare\<close> first, ties broken
  by the type-specific comparison.
\<close>

definition compare :: "'e SymCompare \<Rightarrow> 'e \<Rightarrow> 'e \<Rightarrow> bool" where
  "compare sc A B =
     (if invariants_compare_impl sc A B then True
      else if invariants_compare_impl sc B A then False
      else compare_impl sc A B)"

text \<open>
  Modelled from the spec: \<open>equal(A, B) = !compare(A,B) && !compare(B,A)\<close>; the comment
  of \<open>compare_impl\<close> in the source says the same.
\<close>

definition equal_sc :: "'e SymCompare \<Rightarrow> 'e \<Rightarrow> 'e \<Rightarrow> bool" where
  "equal_sc sc A B = (\<not> compare sc A B \<and> \<not> compare sc B A)"

subsection \<open>ClusterSymCompare\<close>

text \<open>\<open>ClusterSymCompare<Base>::compare_impl\<close>: \<open>return A < B\<close>.\<close>

definition ClusterSymCompare_compare_impl :: "IntegralCluster \<Rightarrow> IntegralCluster \<Rightarrow> bool" where
  "ClusterSymCompare_compare_impl A B = cluster_less A B"

text \<open>
  \<open>ClusterSymCompare<Base>::invariants_compare_impl\<close> compares the invariants of the two
  clusters (site count and site-to-site distances) at the floating-point tolerance of the
  comparator. The comparators below take it as their parameter \<open>invariants_compare_f\<close>.
\<close>

subsection \<open>AperiodicSymCompare\<close>

definition AperiodicSymCompare_representation_prepare_impl :: "IntegralCluster \<Rightarrow> IntegralCluster" where
  "AperiodicSymCompare_representation_prepare_impl obj = sort_cluster obj"

definition AperiodicSymCompare_spatial_prepare_impl ::
  "IntegralCluster \<Rightarrow> UnitCell option \<times> IntegralCluster" where
  "AperiodicSymCompare_spatial_prepare_impl obj = (None, obj)"

definition AperiodicSymCompare ::
  "(IntegralCluster \<Rightarrow> IntegralCluster \<Rightarrow> bool) \<Rightarrow> IntegralCluster SymCompare" where
  "AperiodicSymCompare invariants_compare_f =
     \<lparr> spatial_prepare_impl = AperiodicSymCompare_spatial_prepare_impl,
       representation_prepare_impl = AperiodicSymCompare_representation_prepare_impl,
       invariants_compare_impl = invariants_compare_f,
       compare_impl = ClusterSymCompare_compare_impl \<rparr>"

subsection \<open>PrimPeriodicSymCompare\<close>

definition PrimPeriodicSymCompare_spatial_prepare_impl ::
  "IntegralCluster \<Rightarrow> UnitCell option \<times> IntegralCluster" where
  "PrimPeriodicSymCompare_spatial_prepare_impl obj =
     (if size_cluster obj = 0 then (None, obj)
      else let pos = position obj
           in (Some (vec_neg (unitcell pos)), cluster_minus obj (unitcell pos)))"

definition PrimPeriodicSymCompare_representation_prepare_impl ::
  "IntegralCluster \<Rightarrow> IntegralCluster" where
  "PrimPeriodicSymCompare_representation_prepare_impl obj =
     (if size_cluster obj = 0 then obj else sort_cluster obj)"

definition PrimPeriodicSymCompare ::
  "(IntegralCluster \<Rightarrow> IntegralCluster \<Rightarrow> bool) \<Rightarrow> IntegralCluster SymCompare" where
  "PrimPeriodicSymCompare invariants_compare_f =
     \<lparr> spatial_prepare_impl = PrimPeriodicSymCompare_spatial_prepare_impl,
       representation_prepare_impl = PrimPeriodicSymCompare_representation_prepare_impl,
       invariants_compare_impl = invariants_compare_f,
       compare_impl = ClusterSymCompare_compare_impl \<rparr>"

subsection \<open>ScelPeriodicSymCompare\<close>

text \<open>
  The constructor stores \<open>bring_within_f\<close>, the function that brings a site within the
  supercell; it is the first parameter of the methods.
\<close>

definition ScelPeriodicSymCompare_spatial_prepare_impl ::
  "(UnitCellCoord \<Rightarrow> UnitCellCoord) \<Rightarrow> IntegralCluster \<Rightarrow> UnitCell option \<times> IntegralCluster" where
  "ScelPeriodicSymCompare_spatial_prepare_impl bring_within_f obj =
     (if size_cluster obj = 0 then (None, obj)
      else let pos = position obj;
               shift = vec_sub (unitcell (bring_within_f pos)) (unitcell pos)
           in (Some shift, cluster_plus obj shift))"

definition ScelPeriodicSymCompare_representation_prepare_impl ::
  "IntegralCluster \<Rightarrow> IntegralCluster" where
  "ScelPeriodicSymCompare_representation_prepare_impl obj =
     (if size_cluster obj = 0 then obj else sort_cluster obj)"

definition ScelPeriodicSymCompare ::
  "(UnitCellCoord \<Rightarrow> UnitCellCoord) \<Rightarrow> (IntegralCluster \<Rightarrow> IntegralCluster \<Rightarrow> bool) \<Rightarrow>
   IntegralCluster SymCompare" where
  "ScelPeriodicSymCompare bring_within_f invariants_compare_f =
     \<lparr> spatial_prepare_impl = ScelPeriodicSymCompare_spatial_prepare_impl bring_within_f,
       representation_prepare_impl = ScelPeriodicSymCompare_representation_prepare_impl,
       invariants_compare_impl = invariants_compare_f,
       compare_impl = ClusterSymCompare_compare_impl \<rparr>"

subsection \<open>WithinScelSymCompare\<close>

definition WithinScelSymCompare_spatial_prepare_impl ::
  "IntegralCluster \<Rightarrow> UnitCell option \<times> IntegralCluster" where
  "WithinScelSymCompare_spatial_prepare_impl obj = (None, obj)"

text \<open>
  The loop \<open>obj[i] = m_bring_within_f(obj[i])\<close> over all indices replaces every site
  by its image.
\<close>

definition WithinScelSymCompare_representation_prepare_impl ::
  "(UnitCellCoord \<Rightarrow> UnitCellCoord) \<Rightarrow> IntegralCluster \<Rightarrow> IntegralCluster" where
  "WithinScelSymCompare_representation_prepare_impl bring_within_f obj =
     (if size_cluster obj = 0 then obj
      else sort_cluster (obj \<lparr> m_element := map bring_within_f (m_element obj) \<rparr>))"

definition WithinScelSymCompare ::
  "(UnitCellCoord \<Rightarrow> UnitCellCoord) \<Rightarrow> (IntegralCluster \<Rightarrow> IntegralCluster \<Rightarrow> bool) \<Rightarrow>
   IntegralCluster SymCompare" where
  "WithinScelSymCompare bring_within_f invariants_compare_f =
     \<lparr> spatial_prepare_impl = WithinScelSymCompare_spatial_prepare_impl,
       representation_prepare_impl = WithinScelSymCompare_representation_prepare_impl bring_within_f,
       invariants_compare_impl = invariants_compare_f,
       compare_impl = ClusterSymCompare_compare_impl \<rparr>"

section \<open>Canonical-form search (ScelOrbitGeneration_impl)\<close>

text \<open>
  \<open>ScelCanonicalGenerator\<close> and \<open>ScelIsCanonical\<close> are templates over the element type;
  both hold a comparator \<open>m_sym_compare\<close> and a supercell. The comparator \<open>sc\<close>, the
  group action \<open>copy_apply\<close> and the inverse of a \<open>PermuteIterator\<close> are parameters of
  the model. A \<open>PermuteIterator\<close> is at once an iterator over the supercell's
  permutation group and the operation it stands at: the range
  \<open>[permute_begin(), permute_end())\<close> is the list of its operations together with the
  end iterator.
\<close>

record 'op Supercell =
  permute_range :: "'op list"
  permute_end :: "'op"

definition permute_begin :: "'op Supercell \<Rightarrow> 'op" where
  "permute_begin scel = (case permute_range scel of [] \<Rightarrow> permute_end scel | it # _ \<Rightarrow> it)"

text \<open>
  The \<open>while(it != end)\<close> loop shared by both overloads of
  \<open>ScelCanonicalGenerator::operator()\<close>. The state is the pair of the local \<open>result\<close>
  and the mutable member \<open>m_to_canonical\<close>.
\<close>

fun canonical_loop ::
  "'e SymCompare \<Rightarrow> ('op \<Rightarrow> 'e \<Rightarrow> 'e) \<Rightarrow> 'e \<Rightarrow> 'op list \<Rightarrow> 'e \<times> 'op \<Rightarrow> 'e \<times> 'op" where
  "canonical_loop sc copy_apply e [] (result, m_to_canonical) = (result, m_to_canonical)"
| "canonical_loop sc copy_apply e (it # rest) (result, m_to_canonical) =
     (let test = prepare sc (copy_apply it e)
      in if compare sc result test
         then canonical_loop sc copy_apply e rest (test, it)
         else canonical_loop sc copy_apply e rest (result, m_to_canonical))"

text \<open>
  \<open>operator()(const Element &e)\<close>: the search over the supercell's own range. The
  result is the returned element paired with \<open>m_to_canonical\<close> as the call leaves it.
\<close>

definition ScelCanonicalGenerator_call ::
  "'e SymCompare \<Rightarrow> ('op \<Rightarrow> 'e \<Rightarrow> 'e) \<Rightarrow> 'op Supercell \<Rightarrow> 'e \<Rightarrow> 'e \<times> 'op" where
  "ScelCanonicalGenerator_call sc copy_apply scel e =
     canonical_loop sc copy_apply e (permute_range scel) (prepare sc e, permute_begin scel)"

text \<open>
  \<open>operator()(const Element &e, PermuteIteratorIt begin, PermuteIteratorIt end)\<close>: the
  search over a container of \<open>PermuteIterator\<close>. \<open>m_to_canonical = *it\<close> dereferences
  \<open>begin\<close> before the loop tests \<open>it != end\<close>, which is undefined for an empty range.
  The two lines written to \<open>std::cout\<close> are left out.
\<close>

definition ScelCanonicalGenerator_call_range ::
  "'e SymCompare \<Rightarrow> ('op \<Rightarrow> 'e \<Rightarrow> 'e) \<Rightarrow> 'e \<Rightarrow> 'op list \<Rightarrow> error + 'e \<times> 'op" where
  "ScelCanonicalGenerator_call_range sc copy_apply e ops =
     (case ops of
        [] \<Rightarrow> Inl EmptyRange
      | it # _ \<Rightarrow> Inr (canonical_loop sc copy_apply e ops (prepare sc e, it)))"

text \<open>
  \<open>to_canonical()\<close> returns \<open>m_to_canonical\<close>; \<open>from_canonical()\<close> returns
  \<open>to_canonical().inverse()\<close>. Both read the state a call has left.
\<close>

definition to_canonical :: "'e \<times> 'op \<Rightarrow> 'op" where
  "to_canonical after_call = snd after_call"

definition from_canonical :: "('op \<Rightarrow> 'op) \<Rightarrow> 'e \<times> 'op \<Rightarrow> 'op" where
  "from_canonical inverse_f after_call = inverse_f (to_canonical after_call)"

text \<open>
  \<open>ScelIsCanonical::operator()\<close> over a range: \<open>std::none_of\<close> with the lambda
  \<open>less_than\<close>, which prepares the image of \<open>e\<close> under \<open>op\<close> and compares \<open>e\<close>
  itself with it.
\<close>

definition less_than :: "'e SymCompare \<Rightarrow> ('op \<Rightarrow> 'e \<Rightarrow> 'e) \<Rightarrow> 'e \<Rightarrow> 'op \<Rightarrow> bool" where
  "less_than sc copy_apply e op =
     (let test = prepare sc (copy_apply op e) in compare sc e test)"

fun none_of :: "('a \<Rightarrow> bool) \<Rightarrow> 'a list \<Rightarrow> bool" where
  "none_of pred [] = True"
| "none_of pred (x # xs) = (if pred x then False else none_of pred xs)"

definition ScelIsCanonical_call_range ::
  "'e SymCompare \<Rightarrow> ('op \<Rightarrow> 'e \<Rightarrow> 'e) \<Rightarrow> 'e \<Rightarrow> 'op list \<Rightarrow> bool" where
  "ScelIsCanonical_call_range sc copy_apply e ops = none_of (less_than sc copy_apply e) ops"

text \<open>\<open>ScelIsCanonical::operator()(const Element &e)\<close> passes the supercell's range.\<close>

definition ScelIsCanonical_call ::
  "'e SymCompare \<Rightarrow> ('op \<Rightarrow> 'e \<Rightarrow> 'e) \<Rightarrow> 'op Supercell \<Rightarrow> 'e \<Rightarrow> bool" where
  "ScelIsCanonical_call sc copy_apply scel e =
     ScelIsCanonical_call_range sc copy_apply e (permute_range scel)"

text \<open>
  The contract the spec (4.3, 7) puts on \<open>compare\<close>: a strict weak order on prepared
  elements. It is stated on the images of \<open>prepare\<close>: irreflexive, transitive, and
  whenever \<open>A < C\<close>, any \<open>B\<close> has \<open>A < B\<close> or \<open>B < C\<close>.
\<close>

definition strict_order_on_prepared :: "'e SymCompare \<Rightarrow> bool" where
  "strict_order_on_prepared sc =
     ((\<forall>x. \<not> compare sc (prepare sc x) (prepare sc x)) \<and>
      (\<forall>x y z. compare sc (prepare sc x) (prepare sc y) \<longrightarrow>
                compare sc (prepare sc y) (prepare sc z) \<longrightarrow>
                compare sc (prepare sc x) (prepare sc z)))"

definition strict_weak_order_on_prepared :: "'e SymCompare \<Rightarrow> bool" where
  "strict_weak_order_on_prepared sc =
     (strict_order_on_prepared sc \<and>
      (\<forall>x y z. compare sc (prepare sc x) (prepare sc z) \<longrightarrow>
                compare sc (prepare sc x) (prepare sc y) \<or>
                compare sc (prepare sc y) (prepare sc z)))"

section \<open>A concrete supercell, comparator and symmetry group\<close>

text \<open>
  Modelled from the spec: \<open>LatticePointWithin_f::operator()\<close> on a \<open>UnitCellCoord\<close> is
  declared only. It brings the unit cell of the site within the superlattice and keeps
  the sublattice index.
\<close>

definition bring_within_bijk :: "LatticePointWithin_f \<Rightarrow> UnitCellCoord \<Rightarrow> UnitCellCoord" where
  "bring_within_bijk this bijk = (sublat bijk, bring_within this (unitcell bijk))"

text \<open>
  For evaluating the search on concrete inputs: clusters in the supercell
  \<open>T = diag(2,2,2)\<close> under the supercell-periodic comparator, acted on by symmetry
  operations given in lattice coordinates (an integer matrix and an integer translation),
  which send the site \<open>(b, ijk)\<close> to \<open>(b, M ijk + tau)\<close>. The invariants are compared by
  site count; the operations keep every site-to-site distance, so the remaining
  invariants of an element and of its images agree.
\<close>

definition diag222_within :: LatticePointWithin_f where
  "diag222_within =
     \<lparr> m_transformation_matrix = diag222,
       m_transformation_matrix_adjugate = ((4, 0, 0), (0, 4, 0), (0, 0, 4)),
       m_total_lattice_points_in_superlattice = 8 \<rparr>"

type_synonym lattice_op = "matrix_type \<times> vector_type"

definition apply_site :: "lattice_op \<Rightarrow> UnitCellCoord \<Rightarrow> UnitCellCoord" where
  "apply_site op bijk = (sublat bijk, vec_add (mat_vec (fst op) (unitcell bijk)) (snd op))"

definition copy_apply_cluster :: "lattice_op \<Rightarrow> IntegralCluster \<Rightarrow> IntegralCluster" where
  "copy_apply_cluster op obj = obj \<lparr> m_element := map (apply_site op) (m_element obj) \<rparr>"

definition identity_op :: lattice_op where
  "identity_op = (identity_matrix, (0, 0, 0))"

definition inversion_op :: lattice_op where
  "inversion_op = (((-1, 0, 0), (0, -1, 0), (0, 0, -1)), (0, 0, 0))"

definition site_count_compare :: "IntegralCluster \<Rightarrow> IntegralCluster \<Rightarrow> bool" where
  "site_count_compare A B = (size_cluster A < size_cluster B)"

definition scel_sc :: "IntegralCluster SymCompare" where
  "scel_sc = ScelPeriodicSymCompare (bring_within_bijk diag222_within) site_count_compare"

definition inversion_scel :: "lattice_op Supercell" where
  "inversion_scel = \<lparr> permute_range = [identity_op, inversion_op], permute_end = identity_op \<rparr>"

definition cluster_of :: "UnitCellCoord list \<Rightarrow> IntegralCluster" where
  "cluster_of sites = \<lparr> m_prim_ptr = 0, m_element = sites \<rparr>"

text \<open>
  Two-site clusters on one sublattice: one whose sites are stored out of order, the
  same sites stored in order, the prepared form of the first, the prepared form of its
  image under inversion (the maximum of the orbit), and the empty cluster.
\<close>

definition unsorted_pair :: IntegralCluster where
  "unsorted_pair = cluster_of [(0, (2, 0, 0)), (0, (-3, 0, 0))]"

definition reordered_pair :: IntegralCluster where
  "reordered_pair = cluster_of [(0, (-3, 0, 0)), (0, (2, 0, 0))]"

definition lower_pair :: IntegralCluster where
  "lower_pair = cluster_of [(0, (-5, 0, 0)), (0, (0, 0, 0))]"

definition upper_pair :: IntegralCluster where
  "upper_pair = cluster_of [(0, (0, 0, 0)), (0, (5, 0, 0))]"

definition empty_cluster :: IntegralCluster where
  "empty_cluster = cluster_of []"

section \<open>Permutation: permute and ipermute are mutually inverse\<close>

lemma permute_loop_map:
  "\<forall>j \<in> set js. j < length before_vec \<Longrightarrow>
   permute_loop before_vec js acc = Inr (acc @ map (\<lambda>j. before_vec ! j) js)"
  by (induction js arbitrary: acc) simp_all

lemma is_perm_bound: "is_perm p \<Longrightarrow> j \<in> set p \<Longrightarrow> j < length p"
  by (simp add: is_perm_def size_perm_def list_all_iff)

lemma is_perm_distinct: "is_perm p \<Longrightarrow> distinct p"
  by (simp add: is_perm_def)

lemma is_perm_set: "is_perm p \<Longrightarrow> set p = {0..<length p}"
proof -
  assume h: "is_perm p"
  have sub: "set p \<subseteq> {0..<length p}"
    using is_perm_bound [OF h] by auto
  have "card (set p) = length p"
    using is_perm_distinct [OF h] by (simp add: distinct_card)
  then have "card (set p) = card {0..<length p}" by simp
  with sub show ?thesis
    by (simp add: card_subset_eq)
qed

lemma permute_is_perm:
  assumes "is_perm p" "length v = length p"
  shows "permute p v = Inr (map (\<lambda>j. v ! j) p)"
proof -
  have "\<forall>j \<in> set p. j < length v"
    using assms is_perm_bound by auto
  then show ?thesis
    using assms(2) by (simp add: permute_def size_perm_def permute_loop_map)
qed

lemma ipermute_loop_result:
  "distinct js \<Longrightarrow> \<forall>j \<in> set js. j < length a \<Longrightarrow>
   \<exists>r. ipermute_loop b i js a = Inr r \<and> length r = length a \<and>
       (\<forall>k < length js. r ! (js ! k) = (if js ! k = i + k then a ! (js ! k) else b ! (i + k))) \<and>
       (\<forall>m < length a. m \<notin> set js \<longrightarrow> r ! m = a ! m)"
proof (induction js arbitrary: i a)
  case Nil
  then show ?case by simp
next
  case (Cons j js)
  let ?a' = "if i \<noteq> j then a[j := b ! i] else a"
  have step: "ipermute_loop b i (j # js) a = ipermute_loop b (Suc i) js ?a'"
    using Cons.prems(2) by simp
  have d: "distinct js" and jn: "j \<notin> set js" and jl: "j < length a"
    using Cons.prems by auto
  have bnd: "\<forall>x \<in> set js. x < length ?a'"
    using Cons.prems(2) by auto
  from Cons.IH [OF d bnd, of "Suc i"] obtain r where
    r: "ipermute_loop b (Suc i) js ?a' = Inr r" "length r = length ?a'"
      "\<forall>k < length js. r ! (js ! k) = (if js ! k = Suc i + k then ?a' ! (js ! k) else b ! (Suc i + k))"
      "\<forall>m < length ?a'. m \<notin> set js \<longrightarrow> r ! m = ?a' ! m"
    by blast
  have len: "length r = length a" using r(2) by simp
  have head: "r ! j = (if j = i then a ! j else b ! i)"
    using r(4) jn jl by (auto split: if_splits)
  have tail: "\<forall>k < length js. r ! (js ! k) = (if js ! k = Suc (i + k) then a ! (js ! k) else b ! (Suc (i + k)))"
  proof (intro allI impI)
    fix k assume k: "k < length js"
    then have "js ! k \<noteq> j" using jn by (metis nth_mem)
    then show "r ! (js ! k) = (if js ! k = Suc (i + k) then a ! (js ! k) else b ! (Suc (i + k)))"
      using r(3) k by auto
  qed
  have nth: "\<forall>k < length (j # js). r ! ((j # js) ! k) =
      (if (j # js) ! k = i + k then a ! ((j # js) ! k) else b ! (i + k))"
  proof (intro allI impI)
    fix k assume k: "k < length (j # js)"
    show "r ! ((j # js) ! k) = (if (j # js) ! k = i + k then a ! ((j # js) ! k) else b ! (i + k))"
    proof (cases k)
      case 0
      then show ?thesis using head by simp
    next
      case (Suc k')
      then show ?thesis using tail k by simp
    qed
  qed
  have rest: "\<forall>m < length a. m \<notin> set (j # js) \<longrightarrow> r ! m = a ! m"
    using r(4) by auto
  show ?case
    using step r(1) len nth rest by auto
qed

lemma ipermute_is_perm:
  assumes "is_perm p" "length w = length p"
  shows "\<exists>r. ipermute p w = Inr r \<and> length r = length p \<and> (\<forall>k < length p. r ! (p ! k) = w ! k)"
proof -
  have bnd: "\<forall>j \<in> set p. j < length w"
    using assms is_perm_bound by auto
  from ipermute_loop_result [OF is_perm_distinct [OF assms(1)] bnd, of w 0] obtain r where
    r: "ipermute_loop w 0 p w = Inr r" "length r = length w"
      "\<forall>k < length p. r ! (p ! k) = (if p ! k = 0 + k then w ! (p ! k) else w ! (0 + k))"
    by blast
  have "\<forall>k < length p. r ! (p ! k) = w ! k"
    using r(3) by auto
  then show ?thesis
    using r(1,2) assms(2) by (simp add: ipermute_def size_perm_def)
qed

text \<open>
  C10. For a permutation \<open>p\<close> accepted by \<open>is_perm\<close> and a vector \<open>v\<close> of the same size,
  \<open>permute\<close> returns the vector whose \<open>i\<close>-th entry is \<open>v[p[i]]\<close>,
  \<open>ipermute\<close> undoes \<open>permute\<close>, and \<open>permute\<close> undoes \<open>ipermute\<close>; none of the
  four calls fails.
\<close>

theorem permute_ipermute_inverse:
  assumes "is_perm p" "length v = size_perm p"
  shows "permute p v = Inr (map (\<lambda>i. v ! (p ! i)) [0..<size_perm p]) \<and>
         (\<exists>w. permute p v = Inr w \<and> ipermute p w = Inr v) \<and>
         (\<exists>w. ipermute p v = Inr w \<and> permute p w = Inr v)"
proof -
  have lv: "length v = length p" using assms(2) by (simp add: size_perm_def)
  let ?w = "map (\<lambda>j. v ! j) p"
  have pw: "permute p v = Inr ?w" by (rule permute_is_perm [OF assms(1) lv])
  have shape: "?w = map (\<lambda>i. v ! (p ! i)) [0..<size_perm p]"
    unfolding size_perm_def by (rule nth_equalityI) simp_all
  have surj: "\<And>m. m < length p \<Longrightarrow> \<exists>k < length p. p ! k = m"
  proof -
    fix m assume "m < length p"
    then have "m \<in> set p" using is_perm_set [OF assms(1)] by simp
    then show "\<exists>k < length p. p ! k = m" by (auto simp: in_set_conv_nth)
  qed
  have one: "ipermute p ?w = Inr v"
  proof -
    from ipermute_is_perm [OF assms(1), of ?w] obtain r where
      r: "ipermute p ?w = Inr r" "length r = length p" "\<forall>k < length p. r ! (p ! k) = ?w ! k"
      by auto
    have "r = v"
    proof (rule nth_equalityI)
      show "length r = length v" using r(2) lv by simp
    next
      fix m assume "m < length r"
      then have "m < length p" using r(2) by simp
      then obtain k where k: "k < length p" "p ! k = m" using surj by blast
      then show "r ! m = v ! m" using r(3) by auto
    qed
    then show ?thesis using r(1) by simp
  qed
  have two: "\<exists>w. ipermute p v = Inr w \<and> permute p w = Inr v"
  proof -
    from ipermute_is_perm [OF assms(1) lv] obtain r where
      r: "ipermute p v = Inr r" "length r = length p" "\<forall>k < length p. r ! (p ! k) = v ! k"
      by auto
    have "permute p r = Inr (map (\<lambda>j. r ! j) p)"
      by (rule permute_is_perm [OF assms(1) r(2)])
    moreover have "map (\<lambda>j. r ! j) p = v"
      using r(3) lv by (intro nth_equalityI) simp_all
    ultimately show ?thesis using r(1) by simp
  qed
  show ?thesis using pw shape one two by simp
qed

theorem permute_ipermute_inverse_witness:
  "is_perm [2, 0, 1] \<and> length ''abc'' = size_perm [2, 0, 1] \<and>
   permute [2, 0, 1] ''abc'' = Inr ''cab'' \<and>
   ipermute [2, 0, 1] ''cab'' = Inr ''abc'' \<and>
   (\<exists>w. ipermute [2, 0, 1] ''abc'' = Inr w \<and> permute [2, 0, 1] w = Inr ''abc'')"
proof -
  have h1: "is_perm [2, 0, 1]" by (simp add: is_perm_def size_perm_def)
  have h2: "length ''abc'' = size_perm [2, 0, 1]" by (simp add: size_perm_def)
  have e: "permute [2, 0, 1] ''abc'' = Inr ''cab''"
    by (simp add: permute_def size_perm_def)
  show ?thesis
    using h1 h2 e permute_ipermute_inverse [OF h1 h2] by auto
qed

section \<open>Facts about 3x3 integer matrices\<close>

lemma determinant_mat_mul:
  "determinant (mat_mul A B) = determinant A * determinant B"
proof -
  obtain a b c d e f g h i where A: "A = ((a, b, c), (d, e, f), (g, h, i))"
    by (metis prod_cases3)
  obtain a' b' c' d' e' f' g' h' i' where B: "B = ((a', b', c'), (d', e', f'), (g', h', i'))"
    by (metis prod_cases3)
  show ?thesis
    unfolding A B by (simp add: algebra_simps)
qed

lemma mat_vec_mat_mul:
  "mat_vec (mat_mul A B) x = mat_vec A (mat_vec B x)"
proof -
  obtain a b c d e f g h i where A: "A = ((a, b, c), (d, e, f), (g, h, i))"
    by (metis prod_cases3)
  obtain a' b' c' d' e' f' g' h' i' where B: "B = ((a', b', c'), (d', e', f'), (g', h', i'))"
    by (metis prod_cases3)
  obtain x1 x2 x3 where x: "x = (x1, x2, x3)" by (metis prod_cases3)
  show ?thesis
    unfolding A B x by (simp add: algebra_simps)
qed

lemma mat_vec_adjugate:
  "mat_vec T (mat_vec (adjugate T) x) = vec_scale (determinant T) x"
proof -
  obtain a b c d e f g h i where T: "T = ((a, b, c), (d, e, f), (g, h, i))"
    by (metis prod_cases3)
  obtain x1 x2 x3 where x: "x = (x1, x2, x3)" by (metis prod_cases3)
  show ?thesis
    unfolding T x by (simp add: algebra_simps)
qed

lemma adjugate_mat_vec:
  "mat_vec (adjugate T) (mat_vec T x) = vec_scale (determinant T) x"
proof -
  obtain a b c d e f g h i where T: "T = ((a, b, c), (d, e, f), (g, h, i))"
    by (metis prod_cases3)
  obtain x1 x2 x3 where x: "x = (x1, x2, x3)" by (metis prod_cases3)
  show ?thesis
    unfolding T x by (simp add: algebra_simps)
qed

lemma mat_vec_sub:
  "mat_vec A (vec_sub x y) = vec_sub (mat_vec A x) (mat_vec A y)"
proof -
  obtain a b c d e f g h i where A: "A = ((a, b, c), (d, e, f), (g, h, i))"
    by (metis prod_cases3)
  obtain x1 x2 x3 y1 y2 y3 where v: "x = (x1, x2, x3)" "y = (y1, y2, y3)"
    by (metis prod_cases3)
  show ?thesis
    unfolding A v by (simp add: algebra_simps)
qed

lemma mat_vec_scale:
  "mat_vec A (vec_scale n x) = vec_scale n (mat_vec A x)"
proof -
  obtain a b c d e f g h i where A: "A = ((a, b, c), (d, e, f), (g, h, i))"
    by (metis prod_cases3)
  obtain x1 x2 x3 where v: "x = (x1, x2, x3)"
    by (metis prod_cases3)
  show ?thesis
    unfolding A v by (simp add: algebra_simps)
qed

lemma vec_mod_decomp: "vec_mod v n = vec_sub v (vec_scale n (vec_div v n))"
proof -
  obtain x y z where v: "v = (x, y, z)" by (metis prod_cases3)
  show ?thesis unfolding v by (simp add: minus_mult_div_eq_mod)
qed

lemma vec_sub_scale: "vec_sub (vec_scale n a) (vec_scale n b) = vec_scale n (vec_sub a b)"
proof -
  obtain x y z where a: "a = (x, y, z)" by (metis prod_cases3)
  obtain u v w where b: "b = (u, v, w)" by (metis prod_cases3)
  show ?thesis unfolding a b by (simp add: algebra_simps)
qed

lemma vec_div_scale: "n \<noteq> 0 \<Longrightarrow> vec_div (vec_scale n a) n = a"
proof -
  obtain x y z where a: "a = (x, y, z)" by (metis prod_cases3)
  show "n \<noteq> 0 \<Longrightarrow> vec_div (vec_scale n a) n = a" unfolding a by simp
qed

lemma vec_scale_cancel: "n \<noteq> 0 \<Longrightarrow> vec_scale n a = vec_scale n b \<Longrightarrow> a = b"
proof -
  obtain x y z where a: "a = (x, y, z)" by (metis prod_cases3)
  obtain u v w where b: "b = (u, v, w)" by (metis prod_cases3)
  show "n \<noteq> 0 \<Longrightarrow> vec_scale n a = vec_scale n b \<Longrightarrow> a = b" unfolding a b by simp
qed

lemma mat_vec_add:
  "mat_vec A (vec_add x y) = vec_add (mat_vec A x) (mat_vec A y)"
proof -
  obtain a b c d e f g h i where A: "A = ((a, b, c), (d, e, f), (g, h, i))"
    by (metis prod_cases3)
  obtain x1 x2 x3 y1 y2 y3 where v: "x = (x1, x2, x3)" "y = (y1, y2, y3)"
    by (metis prod_cases3)
  show ?thesis
    unfolding A v by (simp add: algebra_simps)
qed

lemma vec_mod_shift: "vec_mod (vec_add v (vec_scale n k)) n = vec_mod v n"
proof -
  obtain x y z where v: "v = (x, y, z)" by (metis prod_cases3)
  obtain p q r where k: "k = (p, q, r)" by (metis prod_cases3)
  show ?thesis unfolding v k by simp
qed

lemma determinant_diagonal:
  "is_diagonal S \<Longrightarrow> diagonal S = (s1, s2, s3) \<Longrightarrow> determinant S = s1 * s2 * s3"
proof -
  obtain a b c d e f g h i where S: "S = ((a, b, c), (d, e, f), (g, h, i))"
    by (metis prod_cases3)
  show "is_diagonal S \<Longrightarrow> diagonal S = (s1, s2, s3) \<Longrightarrow> determinant S = s1 * s2 * s3"
    unfolding S by simp
qed

lemma mat_vec_diagonal:
  "is_diagonal S \<Longrightarrow> diagonal S = (s1, s2, s3) \<Longrightarrow> mat_vec S (x, y, z) = (s1 * x, s2 * y, s3 * z)"
proof -
  obtain a b c d e f g h i where S: "S = ((a, b, c), (d, e, f), (g, h, i))"
    by (metis prod_cases3)
  show "is_diagonal S \<Longrightarrow> diagonal S = (s1, s2, s3) \<Longrightarrow> mat_vec S (x, y, z) = (s1 * x, s2 * y, s3 * z)"
    unfolding S by simp
qed

section \<open>Lattice point reduction: construction and periodicity\<close>

lemma make_LatticePointWithin_f_fields:
  assumes "make_LatticePointWithin_f T = Inr w"
  shows "m_transformation_matrix w = T \<and> m_transformation_matrix_adjugate w = adjugate T \<and>
         m_total_lattice_points_in_superlattice w = determinant T \<and> determinant T \<noteq> 0"
  using assms
  by (auto simp: make_LatticePointWithin_f_def throw_if_bad_transformation_matrix_def
      split: if_splits)

text \<open>The reduced point differs from the point by a superlattice vector.\<close>

lemma bring_within_shift:
  assumes "make_LatticePointWithin_f T = Inr w"
  shows "bring_within w x =
           vec_sub x (mat_vec T (vec_div (mat_vec (adjugate T) x) (determinant T)))"
proof -
  note w = make_LatticePointWithin_f_fields [OF assms]
  let ?d = "determinant T"
  let ?v = "mat_vec (adjugate T) x"
  have "mat_vec T (vec_mod ?v ?d) = vec_scale ?d (vec_sub x (mat_vec T (vec_div ?v ?d)))"
    by (simp add: vec_mod_decomp mat_vec_sub mat_vec_scale mat_vec_adjugate vec_sub_scale)
  then show ?thesis
    using w by (simp add: bring_within_def vec_div_scale)
qed

text \<open>
  C6. Constructing a \<open>LatticePointWithin_f\<close> from a matrix of determinant 0 throws, and
  from any other matrix yields the object holding the matrix, its adjugate and its
  determinant. An \<open>OrderedLatticePointGenerator\<close> holds a \<open>LatticePointWithin_f\<close>
  member built from the same matrix, so its construction throws exactly when the
  determinant is 0, whatever the Smith normal form routine returns.
\<close>

theorem construction_fails_iff_singular:
  "make_LatticePointWithin_f T =
     (if determinant T = 0 then Inl BadTransformationMatrix
      else Inr \<lparr> m_transformation_matrix = T,
                 m_transformation_matrix_adjugate = adjugate T,
                 m_total_lattice_points_in_superlattice = determinant T \<rparr>) \<and>
   (make_OrderedLatticePointGenerator smith_normal_form T = Inl BadTransformationMatrix)
     = (determinant T = 0) \<and>
   isl (make_OrderedLatticePointGenerator smith_normal_form T) = (determinant T = 0)"
proof -
  have w: "make_LatticePointWithin_f T =
     (if determinant T = 0 then Inl BadTransformationMatrix
      else Inr \<lparr> m_transformation_matrix = T,
                 m_transformation_matrix_adjugate = adjugate T,
                 m_total_lattice_points_in_superlattice = determinant T \<rparr>)"
    by (simp add: make_LatticePointWithin_f_def throw_if_bad_transformation_matrix_def)
  have g: "isl (make_OrderedLatticePointGenerator smith_normal_form T) = (determinant T = 0)"
    "(make_OrderedLatticePointGenerator smith_normal_form T = Inl BadTransformationMatrix)
       = (determinant T = 0)"
    by (simp_all add: make_OrderedLatticePointGenerator_def w split: prod.splits)
  show ?thesis using w g by simp
qed

text \<open>
  C5. For a reduction constructed from \<open>T\<close> (so \<open>det T\<close> is not 0), adding any integer
  combination \<open>T k\<close> of the superlattice vectors to a lattice point does not change its
  reduced image.
\<close>

theorem bring_within_periodic:
  assumes "make_LatticePointWithin_f T = Inr w"
  shows "bring_within w (vec_add x (mat_vec T k)) = bring_within w x"
proof -
  note w = make_LatticePointWithin_f_fields [OF assms]
  have "mat_vec (adjugate T) (vec_add x (mat_vec T k)) =
        vec_add (mat_vec (adjugate T) x) (vec_scale (determinant T) k)"
    by (simp add: mat_vec_add adjugate_mat_vec)
  then have "vec_mod (mat_vec (adjugate T) (vec_add x (mat_vec T k))) (determinant T) =
        vec_mod (mat_vec (adjugate T) x) (determinant T)"
    by (simp add: vec_mod_shift)
  then show ?thesis
    using w by (simp add: bring_within_def)
qed

theorem bring_within_periodic_witness:
  "\<exists>w. make_LatticePointWithin_f diag222 = Inr w \<and>
       bring_within w (vec_add (-1, 0, 0) (mat_vec diag222 (3, -1, 0))) = (1, 0, 0) \<and>
       bring_within w (-1, 0, 0) = (1, 0, 0)"
proof -
  obtain w where h: "make_LatticePointWithin_f diag222 = Inr w"
    by (simp add: make_LatticePointWithin_f_def throw_if_bad_transformation_matrix_def diag222_def)
  have v: "bring_within w (-1, 0, 0) = (1, 0, 0)"
    using h
    by (auto simp: make_LatticePointWithin_f_def throw_if_bad_transformation_matrix_def
          diag222_def bring_within_def)
  show ?thesis
    using h v bring_within_periodic [OF h, of "(-1, 0, 0)" "(3, -1, 0)"] by simp
qed

text \<open>
  The spec's end-to-end scenario for \<open>T = diag(2,2,2)\<close>: the point (2,0,0) reduces to
  (0,0,0) and (-1,0,0) to (1,0,0).
\<close>

lemma diag222_reduction:
  "make_LatticePointWithin_f diag222 = Inr w \<Longrightarrow>
   bring_within w (2, 0, 0) = (0, 0, 0) \<and> bring_within w (-1, 0, 0) = (1, 0, 0)"
  by (auto simp: make_LatticePointWithin_f_def throw_if_bad_transformation_matrix_def
      diag222_def bring_within_def)

section \<open>Ordered lattice point generator: size and enumeration\<close>

lemma residue_eq:
  fixes a b s c :: int
  assumes "0 \<le> a" "a < s" "0 \<le> b" "b < s" "a - b = s * c"
  shows "a = b"
proof -
  have "a = b + s * c" using assms(5) by simp
  then have "a mod s = b mod s" by simp
  then show ?thesis using assms(1-4) by simp
qed

lemma div_lt:
  fixes r s1 s2 :: int
  assumes "0 < s1" "r < s1 * s2"
  shows "r div s1 < s2"
proof -
  have "r div s1 * s1 \<le> r" using assms(1)
    by (metis mult.commute pos_mod_sign minus_mult_div_eq_mod diff_ge_0_iff_ge)
  then have "r div s1 * s1 < s2 * s1" using assms(2) by (simp add: mult.commute)
  then show ?thesis using assms(1) by (simp add: mult_less_cancel_right)
qed

lemma mixed_radix_recompose:
  fixes ix s1 s2 :: int
  shows "ix = (ix mod (s1 * s2)) mod s1 + ((ix mod (s1 * s2)) div s1) * s1 + (ix div (s1 * s2)) * (s1 * s2)"
  by (smt (verit, ccfv_SIG) div_mod_decomp_int)

lemma snf_determinant:
  assumes "is_smith_normal_form T (U, S, V)" "diagonal S = (s1, s2, s3)"
  shows "\<bar>determinant T\<bar> = s1 * s2 * s3"
proof -
  have T: "T = mat_mul U (mat_mul S V)" and U: "\<bar>determinant U\<bar> = 1" and V: "\<bar>determinant V\<bar> = 1"
    and S: "is_diagonal S" and pos: "0 < s1" "0 < s2" "0 < s3"
    using assms by (auto simp: is_smith_normal_form_def)
  have "\<bar>determinant T\<bar> = \<bar>determinant U\<bar> * \<bar>determinant S\<bar> * \<bar>determinant V\<bar>"
    by (simp add: T determinant_mat_mul abs_mult)
  also have "\<dots> = \<bar>s1 * s2 * s3\<bar>"
    using U V determinant_diagonal [OF S assms(2)] by simp
  also have "\<dots> = s1 * s2 * s3"
    using pos by (simp add: abs_mult)
  finally show ?thesis .
qed

text \<open>Two Smith-normal-form points in the box with the same reduced image are equal.\<close>

lemma snf_points_inequivalent:
  assumes snf: "is_smith_normal_form T (U, S, V)" and d: "diagonal S = (s1, s2, s3)"
    and w: "make_LatticePointWithin_f T = Inr w"
    and a: "0 \<le> a1" "a1 < s1" "0 \<le> a2" "a2 < s2" "0 \<le> a3" "a3 < s3"
    and b: "0 \<le> b1" "b1 < s1" "0 \<le> b2" "b2 < s2" "0 \<le> b3" "b3 < s3"
    and eq: "bring_within w (mat_vec U (a1, a2, a3)) = bring_within w (mat_vec U (b1, b2, b3))"
  shows "(a1, a2, a3) = (b1, b2, b3)"
proof -
  have T: "T = mat_mul U (mat_mul S V)" and U: "\<bar>determinant U\<bar> = 1" and S: "is_diagonal S"
    using snf by (auto simp: is_smith_normal_form_def)
  have Unz: "determinant U \<noteq> 0" using U by auto
  let ?a = "(a1, a2, a3)" and ?b = "(b1, b2, b3)"
  define qa where "qa = vec_div (mat_vec (adjugate T) (mat_vec U ?a)) (determinant T)"
  define qb where "qb = vec_div (mat_vec (adjugate T) (mat_vec U ?b)) (determinant T)"
  have "vec_sub (mat_vec U ?a) (mat_vec T qa) = vec_sub (mat_vec U ?b) (mat_vec T qb)"
    using eq by (simp add: bring_within_shift [OF w] qa_def qb_def)
  then have "vec_sub (mat_vec U ?a) (mat_vec U ?b) = vec_sub (mat_vec T qa) (mat_vec T qb)"
    by (cases "mat_vec U ?a", cases "mat_vec U ?b", cases "mat_vec T qa", cases "mat_vec T qb")
      (simp add: algebra_simps)
  then have "mat_vec U (vec_sub ?a ?b) = mat_vec U (mat_vec S (mat_vec V (vec_sub qa qb)))"
    by (simp only: mat_vec_sub T mat_vec_mat_mul)
  then have "mat_vec (adjugate U) (mat_vec U (vec_sub ?a ?b)) =
             mat_vec (adjugate U) (mat_vec U (mat_vec S (mat_vec V (vec_sub qa qb))))"
    by simp
  then have "vec_scale (determinant U) (vec_sub ?a ?b) =
             vec_scale (determinant U) (mat_vec S (mat_vec V (vec_sub qa qb)))"
    by (simp only: adjugate_mat_vec)
  then have diff: "vec_sub ?a ?b = mat_vec S (mat_vec V (vec_sub qa qb))"
    using Unz by (rule vec_scale_cancel [rotated])
  obtain k1 k2 k3 where k: "mat_vec V (vec_sub qa qb) = (k1, k2, k3)"
    by (metis prod_cases3)
  have "vec_sub ?a ?b = (s1 * k1, s2 * k2, s3 * k3)"
    using diff by (simp add: k mat_vec_diagonal [OF S d])
  then have "a1 - b1 = s1 * k1" "a2 - b2 = s2 * k2" "a3 - b3 = s3 * k3"
    by simp_all
  then have "a1 = b1" "a2 = b2" "a3 = b3"
    using a b by (auto intro: residue_eq)
  then show ?thesis by simp
qed

lemma mixed_radix_inj:
  fixes ix iy s1 s2 :: int
  assumes "(ix mod (s1 * s2)) mod s1 = (iy mod (s1 * s2)) mod s1"
    "(ix mod (s1 * s2)) div s1 = (iy mod (s1 * s2)) div s1"
    "ix div (s1 * s2) = iy div (s1 * s2)"
  shows "ix = iy"
proof -
  have "ix = (ix mod (s1 * s2)) mod s1 + ((ix mod (s1 * s2)) div s1) * s1 + (ix div (s1 * s2)) * (s1 * s2)"
    by (rule mixed_radix_recompose)
  also have "\<dots> = (iy mod (s1 * s2)) mod s1 + ((iy mod (s1 * s2)) div s1) * s1 + (iy div (s1 * s2)) * (s1 * s2)"
    using assms by simp
  also have "\<dots> = iy"
    by (rule mixed_radix_recompose [symmetric])
  finally show ?thesis .
qed

lemma mixed_radix_bounds:
  fixes ix s1 s2 s3 :: int
  assumes "0 < s1" "0 < s2" "0 < s3" "0 \<le> ix" "ix < s1 * s2 * s3"
  shows "0 \<le> (ix mod (s1 * s2)) mod s1 \<and> (ix mod (s1 * s2)) mod s1 < s1 \<and>
         0 \<le> (ix mod (s1 * s2)) div s1 \<and> (ix mod (s1 * s2)) div s1 < s2 \<and>
         0 \<le> ix div (s1 * s2) \<and> ix div (s1 * s2) < s3"
proof -
  have p12: "0 < s1 * s2" using assms(1,2) by simp
  have r: "0 \<le> ix mod (s1 * s2)" "ix mod (s1 * s2) < s1 * s2"
    using p12 by simp_all
  have m: "0 \<le> (ix mod (s1 * s2)) mod s1" "(ix mod (s1 * s2)) mod s1 < s1"
    using assms(1) by simp_all
  have n: "0 \<le> (ix mod (s1 * s2)) div s1"
    using r(1) assms(1) by (simp add: pos_imp_zdiv_nonneg_iff)
  have n': "(ix mod (s1 * s2)) div s1 < s2"
    using assms(1) r(2) by (rule div_lt)
  have p: "0 \<le> ix div (s1 * s2)"
    using assms(4) p12 by (simp add: pos_imp_zdiv_nonneg_iff)
  have p': "ix div (s1 * s2) < s3"
    using p12 assms(5) by (rule div_lt)
  show ?thesis using m n n' p p' by simp
qed

text \<open>
  C7. For a transformation matrix \<open>T\<close> with non-zero determinant whose Smith normal form
  the routine returns, the generator is constructed, \<open>size()\<close> is \<open>|det T|\<close>, the
  indices in \<open>[0, size())\<close> are sent to pairwise different lattice points, and so the
  number of distinct points produced over these indices is \<open>size()\<close>.
\<close>

theorem olpg_size_counts_points:
  assumes "determinant T \<noteq> 0" "is_smith_normal_form T (smith_normal_form T)"
  shows "\<exists>g. make_OrderedLatticePointGenerator smith_normal_form T = Inr g \<and>
             size_olpg g = \<bar>determinant T\<bar> \<and>
             inj_on (lattice_point g) {0..<size_olpg g} \<and>
             int (card (lattice_point g ` {0..<size_olpg g})) = size_olpg g"
proof -
  obtain U S V where usv: "smith_normal_form T = (U, S, V)"
    by (metis prod_cases3)
  obtain s1 s2 s3 where d: "diagonal S = (s1, s2, s3)"
    by (metis prod_cases3)
  have snf: "is_smith_normal_form T (U, S, V)"
    using assms(2) usv by simp
  have pos: "0 < s1" "0 < s2" "0 < s3"
    using snf d by (auto simp: is_smith_normal_form_def)
  obtain w where w: "make_LatticePointWithin_f T = Inr w"
    using assms(1)
    by (simp add: make_LatticePointWithin_f_def throw_if_bad_transformation_matrix_def)
  define g where "g = \<lparr> m_total_lattice_points = \<bar>determinant T\<bar>,
                      m_bring_within_f = w,
                      m_smith_normal_U = U,
                      m_smith_normal_S = S,
                      m_smith_normal_V = V,
                      m_stride = (s1, s1 * s2) \<rparr>"
  have made: "make_OrderedLatticePointGenerator smith_normal_form T = Inr g"
    by (simp add: make_OrderedLatticePointGenerator_def w usv d g_def)
  have size: "size_olpg g = \<bar>determinant T\<bar>"
    by (simp add: size_olpg_def g_def)
  have vol: "size_olpg g = s1 * s2 * s3"
    using size snf_determinant [OF snf d] by simp
  have point: "\<And>ix. lattice_point g ix =
      bring_within w (mat_vec U ((ix mod (s1 * s2)) mod s1, (ix mod (s1 * s2)) div s1, ix div (s1 * s2)))"
    by (simp add: lattice_point_def make_smith_normal_form_lattice_point_def
        normalize_lattice_point_def g_def)
  have inj: "inj_on (lattice_point g) {0..<size_olpg g}"
  proof (rule inj_onI)
    fix ix iy
    assume ix: "ix \<in> {0..<size_olpg g}" and iy: "iy \<in> {0..<size_olpg g}"
      and eq: "lattice_point g ix = lattice_point g iy"
    have bx: "0 \<le> ix" "ix < s1 * s2 * s3" and biy: "0 \<le> iy" "iy < s1 * s2 * s3"
      using ix iy vol by simp_all
    note mx = mixed_radix_bounds [OF pos bx]
    note my = mixed_radix_bounds [OF pos biy]
    have "((ix mod (s1 * s2)) mod s1, (ix mod (s1 * s2)) div s1, ix div (s1 * s2)) =
          ((iy mod (s1 * s2)) mod s1, (iy mod (s1 * s2)) div s1, iy div (s1 * s2))"
      using eq mx my unfolding point
      by (intro snf_points_inequivalent [OF snf d w]) simp_all
    then show "ix = iy"
      by (intro mixed_radix_inj [of ix s1 s2 iy]) simp_all
  qed
  have "card (lattice_point g ` {0..<size_olpg g}) = card {0..<size_olpg g}"
    using inj by (rule card_image)
  then have card: "int (card (lattice_point g ` {0..<size_olpg g})) = size_olpg g"
    using size by simp
  show ?thesis using made size inj card by blast
qed

theorem olpg_size_counts_points_witness:
  "determinant diag222 \<noteq> 0 \<and>
   is_smith_normal_form diag222 (trivial_smith_normal_form diag222) \<and>
   (\<exists>g. make_OrderedLatticePointGenerator trivial_smith_normal_form diag222 = Inr g \<and>
        size_olpg g = 8 \<and>
        int (card (lattice_point g ` {0..<size_olpg g})) = 8)"
proof -
  have h1: "determinant diag222 \<noteq> 0" by (simp add: diag222_def)
  have h2: "is_smith_normal_form diag222 (trivial_smith_normal_form diag222)"
    by (simp add: is_smith_normal_form_def trivial_smith_normal_form_def diag222_def
        identity_matrix_def)
  have d: "\<bar>determinant diag222\<bar> = 8" by (simp add: diag222_def)
  show ?thesis
    using h1 h2 d olpg_size_counts_points [of diag222 trivial_smith_normal_form, OF h1 h2] by auto
qed


text \<open>
  The spec's enumeration scenario: for \<open>T = diag(2,2,2)\<close> the generator has size 8 and
  its points, in order, are the eight points of the cube with coordinates 0 and 1.
\<close>

lemma diag222_points:
  "make_OrderedLatticePointGenerator trivial_smith_normal_form diag222 = Inr g \<Longrightarrow>
   size_olpg g = 8 \<and>
   map (lattice_point g) [0, 1, 2, 3, 4, 5, 6, 7] =
     [(0, 0, 0), (1, 0, 0), (0, 1, 0), (1, 1, 0), (0, 0, 1), (1, 0, 1), (0, 1, 1), (1, 1, 1)]"
  by (auto simp: make_OrderedLatticePointGenerator_def make_LatticePointWithin_f_def
      throw_if_bad_transformation_matrix_def trivial_smith_normal_form_def diag222_def
      identity_matrix_def size_olpg_def lattice_point_def make_smith_normal_form_lattice_point_def
      normalize_lattice_point_def bring_within_def)

section \<open>SymCompare: empty objects pass through prepare\<close>

lemma sort_cluster_empty: "size_cluster obj = 0 \<Longrightarrow> sort_cluster obj = obj"
  by (simp add: size_cluster_def sort_cluster_def)

lemma prepare_unfold:
  "prepare sc obj = representation_prepare_impl sc (snd (spatial_prepare_impl sc obj))"
  by (simp add: prepare_def representation_prepare_def spatial_prepare_def)

text \<open>On an empty object each \<open>spatial_prepare_impl\<close> returns the object.\<close>

lemma spatial_prepare_impl_empty:
  assumes "size_cluster obj = 0"
  shows "snd (AperiodicSymCompare_spatial_prepare_impl obj) = obj"
    and "snd (PrimPeriodicSymCompare_spatial_prepare_impl obj) = obj"
    and "snd (ScelPeriodicSymCompare_spatial_prepare_impl within_f obj) = obj"
    and "snd (WithinScelSymCompare_spatial_prepare_impl obj) = obj"
  using assms
  by (simp_all add: AperiodicSymCompare_spatial_prepare_impl_def
      PrimPeriodicSymCompare_spatial_prepare_impl_def
      ScelPeriodicSymCompare_spatial_prepare_impl_def
      WithinScelSymCompare_spatial_prepare_impl_def)

text \<open>
  On an empty object each \<open>representation_prepare_impl\<close> returns the object: three at
  their guard, the aperiodic one by sorting it.
\<close>

lemma representation_prepare_impl_empty:
  assumes "size_cluster obj = 0"
  shows "AperiodicSymCompare_representation_prepare_impl obj = obj"
    and "PrimPeriodicSymCompare_representation_prepare_impl obj = obj"
    and "ScelPeriodicSymCompare_representation_prepare_impl obj = obj"
    and "WithinScelSymCompare_representation_prepare_impl within_f obj = obj"
  using assms
  by (simp_all add: AperiodicSymCompare_representation_prepare_impl_def
      PrimPeriodicSymCompare_representation_prepare_impl_def
      ScelPeriodicSymCompare_representation_prepare_impl_def
      WithinScelSymCompare_representation_prepare_impl_def sort_cluster_empty)

text \<open>
  C9. For each of the four comparators (whatever the supercell reduction and the
  invariants comparison they are built with), \<open>prepare\<close>, that is the comparator's
  \<open>representation_prepare_impl\<close> applied to the result of its \<open>spatial_prepare_impl\<close>,
  returns an object of size 0 unchanged. The aperiodic comparator has no guard for the
  empty object: it sorts it, which leaves it as it is.
\<close>

theorem prepare_empty_unchanged:
  assumes "size_cluster obj = 0"
  shows "prepare (AperiodicSymCompare inv_f) obj = obj \<and>
         prepare (PrimPeriodicSymCompare inv_f) obj = obj \<and>
         prepare (ScelPeriodicSymCompare within_f inv_f) obj = obj \<and>
         prepare (WithinScelSymCompare within_f inv_f) obj = obj \<and>
         AperiodicSymCompare_representation_prepare_impl
           (snd (AperiodicSymCompare_spatial_prepare_impl obj)) = obj \<and>
         PrimPeriodicSymCompare_representation_prepare_impl
           (snd (PrimPeriodicSymCompare_spatial_prepare_impl obj)) = obj \<and>
         ScelPeriodicSymCompare_representation_prepare_impl
           (snd (ScelPeriodicSymCompare_spatial_prepare_impl within_f obj)) = obj \<and>
         WithinScelSymCompare_representation_prepare_impl within_f
           (snd (WithinScelSymCompare_spatial_prepare_impl obj)) = obj"
proof -
  note sp = spatial_prepare_impl_empty [OF assms]
  note rp = representation_prepare_impl_empty [OF assms]
  have a: "prepare (AperiodicSymCompare inv_f) obj = obj"
    by (simp add: prepare_unfold AperiodicSymCompare_def sp rp)
  have p: "prepare (PrimPeriodicSymCompare inv_f) obj = obj"
    by (simp add: prepare_unfold PrimPeriodicSymCompare_def sp rp)
  have s: "prepare (ScelPeriodicSymCompare within_f inv_f) obj = obj"
    by (simp add: prepare_unfold ScelPeriodicSymCompare_def sp rp)
  have w: "prepare (WithinScelSymCompare within_f inv_f) obj = obj"
    by (simp add: prepare_unfold WithinScelSymCompare_def sp rp)
  show ?thesis using a p s w by (simp add: sp rp)
qed

theorem prepare_empty_unchanged_witness:
  "size_cluster empty_cluster = 0 \<and>
   prepare (AperiodicSymCompare site_count_compare) empty_cluster = empty_cluster \<and>
   prepare (PrimPeriodicSymCompare site_count_compare) empty_cluster = empty_cluster \<and>
   prepare (ScelPeriodicSymCompare (bring_within_bijk diag222_within) site_count_compare)
     empty_cluster = empty_cluster \<and>
   prepare (WithinScelSymCompare (bring_within_bijk diag222_within) site_count_compare)
     empty_cluster = empty_cluster"
proof -
  have h: "size_cluster empty_cluster = 0"
    by (simp add: size_cluster_def empty_cluster_def cluster_of_def)
  show ?thesis
    using h
      prepare_empty_unchanged [OF h, of site_count_compare "bring_within_bijk diag222_within"]
    by simp
qed

section \<open>Canonical-form search: the loop\<close>

lemma so_irrefl:
  "strict_order_on_prepared sc \<Longrightarrow> \<not> compare sc (prepare sc x) (prepare sc x)"
  by (simp add: strict_order_on_prepared_def)

lemma so_trans:
  "strict_order_on_prepared sc \<Longrightarrow> compare sc (prepare sc x) (prepare sc y) \<Longrightarrow>
   compare sc (prepare sc y) (prepare sc z) \<Longrightarrow> compare sc (prepare sc x) (prepare sc z)"
  unfolding strict_order_on_prepared_def by blast

text \<open>The result of the loop is the start value or the prepared image under some operation.\<close>

lemma canonical_loop_result:
  "fst (canonical_loop sc ca e ops (r, t)) = r \<or>
   (\<exists>op \<in> set ops. fst (canonical_loop sc ca e ops (r, t)) = prepare sc (ca op e))"
proof (induction ops arbitrary: r t)
  case Nil
  show ?case by simp
next
  case (Cons it rest)
  show ?case
  proof (cases "compare sc r (prepare sc (ca it e))")
    case True
    then show ?thesis
      using Cons.IH [of "prepare sc (ca it e)" it] by (auto simp: Let_def)
  next
    case False
    then show ?thesis
      using Cons.IH [of r t] by (auto simp: Let_def)
  qed
qed

lemma canonical_loop_prepared:
  "\<exists>y. fst (canonical_loop sc ca e ops (prepare sc x, t)) = prepare sc y"
  using canonical_loop_result [of sc ca e ops "prepare sc x" t] by auto

text \<open>The result is the start value or strictly greater.\<close>

lemma canonical_loop_ge:
  assumes "strict_order_on_prepared sc"
  shows "fst (canonical_loop sc ca e ops (prepare sc x, t)) = prepare sc x \<or>
         compare sc (prepare sc x) (fst (canonical_loop sc ca e ops (prepare sc x, t)))"
proof (induction ops arbitrary: x t)
  case Nil
  show ?case by simp
next
  case (Cons it rest)
  let ?test = "prepare sc (ca it e)"
  show ?case
  proof (cases "compare sc (prepare sc x) ?test")
    case True
    let ?f = "fst (canonical_loop sc ca e rest (?test, it))"
    obtain y where y: "?f = prepare sc y"
      using canonical_loop_prepared [of sc ca e rest "ca it e" it] by blast
    have "?f = ?test \<or> compare sc ?test ?f"
      using Cons.IH [of "ca it e" it] .
    then have "compare sc (prepare sc x) ?f"
      using True so_trans [OF assms, of x "ca it e" y] y by auto
    then show ?thesis using True by (simp add: Let_def)
  next
    case False
    then show ?thesis using Cons.IH [of x t] by (simp add: Let_def)
  qed
qed

text \<open>No prepared image of an operation of the range exceeds the result.\<close>

lemma canonical_loop_maximal:
  assumes "strict_order_on_prepared sc"
  shows "\<forall>op \<in> set ops.
           \<not> compare sc (fst (canonical_loop sc ca e ops (prepare sc x, t))) (prepare sc (ca op e))"
proof (induction ops arbitrary: x t)
  case Nil
  show ?case by simp
next
  case (Cons it rest)
  let ?test = "prepare sc (ca it e)"
  show ?case
  proof (cases "compare sc (prepare sc x) ?test")
    case True
    let ?f = "fst (canonical_loop sc ca e rest (?test, it))"
    have step: "fst (canonical_loop sc ca e (it # rest) (prepare sc x, t)) = ?f"
      using True by (simp add: Let_def)
    obtain y where y: "?f = prepare sc y"
      using canonical_loop_prepared [of sc ca e rest "ca it e" it] by blast
    have ge: "?f = ?test \<or> compare sc ?test ?f"
      using canonical_loop_ge [OF assms, of ca e rest "ca it e" it] .
    have "\<not> compare sc ?f ?test"
    proof
      assume c: "compare sc ?f ?test"
      from ge show False
      proof
        assume "?f = ?test"
        then show False using c so_irrefl [OF assms, of "ca it e"] by simp
      next
        assume "compare sc ?test ?f"
        then have "compare sc ?test ?test"
          using c y so_trans [OF assms, of "ca it e" y "ca it e"] by simp
        then show False using so_irrefl [OF assms, of "ca it e"] by simp
      qed
    qed
    then show ?thesis
      using step Cons.IH [of "ca it e" it] by simp
  next
    case False
    let ?f = "fst (canonical_loop sc ca e rest (prepare sc x, t))"
    have step: "fst (canonical_loop sc ca e (it # rest) (prepare sc x, t)) = ?f"
      using False by (simp add: Let_def)
    obtain y where y: "?f = prepare sc y"
      using canonical_loop_prepared [of sc ca e rest x t] by blast
    have ge: "?f = prepare sc x \<or> compare sc (prepare sc x) ?f"
      using canonical_loop_ge [OF assms, of ca e rest x t] .
    have "\<not> compare sc ?f ?test"
    proof
      assume c: "compare sc ?f ?test"
      from ge show False
      proof
        assume "?f = prepare sc x"
        then show False using c False by simp
      next
        assume "compare sc (prepare sc x) ?f"
        then have "compare sc (prepare sc x) ?test"
          using c y so_trans [OF assms, of x y "ca it e"] by simp
        then show False using False by simp
      qed
    qed
    then show ?thesis
      using step Cons.IH [of x t] by simp
  qed
qed

text \<open>
  The recorded operation achieves the result whenever it does so at the start of the
  loop: a replacement stores an image together with the operation that produced it.
\<close>

lemma canonical_loop_to_canonical:
  assumes "strict_order_on_prepared sc"
    and "equal_sc sc (prepare sc (ca t e)) r"
  shows "equal_sc sc (prepare sc (ca (snd (canonical_loop sc ca e ops (r, t))) e))
           (fst (canonical_loop sc ca e ops (r, t)))"
  using assms(2)
proof (induction ops arbitrary: r t)
  case Nil
  then show ?case by simp
next
  case (Cons it rest)
  have refl: "equal_sc sc (prepare sc (ca it e)) (prepare sc (ca it e))"
    using so_irrefl [OF assms(1), of "ca it e"] by (simp add: equal_sc_def)
  show ?case
  proof (cases "compare sc r (prepare sc (ca it e))")
    case True
    then show ?thesis using Cons.IH [OF refl] by (simp add: Let_def)
  next
    case False
    then show ?thesis using Cons.IH [OF Cons.prems] by (simp add: Let_def)
  qed
qed

section \<open>The concrete comparator\<close>

lemma diag222_within_made: "make_LatticePointWithin_f diag222 = Inr diag222_within"
  by (simp add: make_LatticePointWithin_f_def throw_if_bad_transformation_matrix_def
      diag222_def diag222_within_def)

lemma bring_within_diag222:
  "bring_within diag222_within (x, y, z) = (x mod 2, y mod 2, z mod 2)"
proof -
  have "\<And>n :: int. 2 * (4 * n mod 8) div 8 = n mod 2"
    by (simp add: algebra_simps) presburger
  then show ?thesis
    by (simp add: bring_within_def diag222_within_def diag222_def)
qed

lemma scel_compare_key:
  "compare scel_sc A B = ((size_cluster A, m_element A) < (size_cluster B, m_element B))"
  by (auto simp: compare_def scel_sc_def ScelPeriodicSymCompare_def site_count_compare_def
      ClusterSymCompare_compare_impl_def cluster_less_def)

lemma scel_strict_weak_order: "strict_weak_order_on_prepared scel_sc"
  unfolding strict_weak_order_on_prepared_def strict_order_on_prepared_def scel_compare_key
  by (intro conjI allI impI) (auto simp del: less_prod_simp)

lemma scel_strict_order: "strict_order_on_prepared scel_sc"
  using scel_strict_weak_order by (simp add: strict_weak_order_on_prepared_def)

lemmas scel_eval =
  prepare_def representation_prepare_def spatial_prepare_def
  scel_sc_def ScelPeriodicSymCompare_def ScelPeriodicSymCompare_spatial_prepare_impl_def
  ScelPeriodicSymCompare_representation_prepare_impl_def sort_cluster_def size_cluster_def
  position_def cluster_plus_def bring_within_bijk_def bring_within_diag222
  copy_apply_cluster_def apply_site_def identity_op_def inversion_op_def identity_matrix_def
  cluster_of_def sublat_def unitcell_def Let_def

lemma prepare_unsorted_pair:
  "prepare scel_sc unsorted_pair = lower_pair"
  "prepare scel_sc (copy_apply_cluster identity_op unsorted_pair) = lower_pair"
  "prepare scel_sc (copy_apply_cluster inversion_op unsorted_pair) = upper_pair"
  by (simp_all add: scel_eval unsorted_pair_def lower_pair_def upper_pair_def)

lemma prepare_reordered_pair:
  "prepare scel_sc (copy_apply_cluster identity_op reordered_pair) =
     cluster_of [(0, (1, 0, 0)), (0, (6, 0, 0))]"
  by (simp add: scel_eval reordered_pair_def)

lemma prepare_upper_pair:
  "prepare scel_sc upper_pair = upper_pair"
  "prepare scel_sc (copy_apply_cluster identity_op upper_pair) = upper_pair"
  "prepare scel_sc (copy_apply_cluster inversion_op upper_pair) = lower_pair"
  by (simp_all add: scel_eval lower_pair_def upper_pair_def)

lemmas pair_eval =
  scel_compare_key cluster_of_def size_cluster_def unsorted_pair_def lower_pair_def
  upper_pair_def

lemma generator_unsorted_pair:
  "ScelCanonicalGenerator_call scel_sc copy_apply_cluster inversion_scel unsorted_pair =
     (upper_pair, inversion_op)"
  by (simp add: ScelCanonicalGenerator_call_def inversion_scel_def permute_begin_def
      prepare_unsorted_pair Let_def)
    (simp add: pair_eval)

lemma is_canonical_unsorted_pair:
  "ScelIsCanonical_call_range scel_sc copy_apply_cluster unsorted_pair
     [identity_op, inversion_op]"
  by (simp add: ScelIsCanonical_call_range_def less_than_def prepare_unsorted_pair Let_def)
    (simp add: pair_eval)

section \<open>Canonical-form search: the claims\<close>

text \<open>
  C2. For a comparator whose \<open>compare\<close> is a strict order on prepared elements, the
  element returned by \<open>ScelCanonicalGenerator::operator()\<close> over the supercell's range is
  \<open>prepare(e)\<close> or the prepared image of \<open>e\<close> under an operation of the range, and no
  prepared image of \<open>e\<close> under an operation of the range is greater.
\<close>

theorem canonical_generator_maximal:
  assumes "strict_order_on_prepared sc"
  shows "(fst (ScelCanonicalGenerator_call sc ca scel e) = prepare sc e \<or>
          (\<exists>op \<in> set (permute_range scel).
             fst (ScelCanonicalGenerator_call sc ca scel e) = prepare sc (ca op e))) \<and>
         (\<forall>op \<in> set (permute_range scel).
            \<not> compare sc (fst (ScelCanonicalGenerator_call sc ca scel e)) (prepare sc (ca op e)))"
proof -
  have "fst (ScelCanonicalGenerator_call sc ca scel e) = prepare sc e \<or>
        (\<exists>op \<in> set (permute_range scel).
           fst (ScelCanonicalGenerator_call sc ca scel e) = prepare sc (ca op e))"
    unfolding ScelCanonicalGenerator_call_def by (rule canonical_loop_result)
  moreover have "\<forall>op \<in> set (permute_range scel).
      \<not> compare sc (fst (ScelCanonicalGenerator_call sc ca scel e)) (prepare sc (ca op e))"
    unfolding ScelCanonicalGenerator_call_def by (rule canonical_loop_maximal [OF assms])
  ultimately show ?thesis by simp
qed

theorem canonical_generator_maximal_witness:
  "strict_order_on_prepared scel_sc \<and>
   fst (ScelCanonicalGenerator_call scel_sc copy_apply_cluster inversion_scel unsorted_pair) =
     prepare scel_sc (copy_apply_cluster inversion_op unsorted_pair) \<and>
   \<not> compare scel_sc
       (fst (ScelCanonicalGenerator_call scel_sc copy_apply_cluster inversion_scel unsorted_pair))
       (prepare scel_sc (copy_apply_cluster identity_op unsorted_pair)) \<and>
   \<not> compare scel_sc
       (fst (ScelCanonicalGenerator_call scel_sc copy_apply_cluster inversion_scel unsorted_pair))
       (prepare scel_sc (copy_apply_cluster inversion_op unsorted_pair))"
proof -
  have h: "strict_order_on_prepared scel_sc" by (rule scel_strict_order)
  have r: "fst (ScelCanonicalGenerator_call scel_sc copy_apply_cluster inversion_scel
             unsorted_pair) = prepare scel_sc (copy_apply_cluster inversion_op unsorted_pair)"
    by (simp add: generator_unsorted_pair prepare_unsorted_pair)
  show ?thesis
    using h r
      canonical_generator_maximal [OF h, of copy_apply_cluster inversion_scel unsorted_pair]
    by (simp add: inversion_scel_def)
qed

text \<open>
  C3 at a failing input. The claim puts the element's own prepared image on the left of
  \<open>compare\<close>; the lambda \<open>less_than\<close> passes the element as it was handed in, although
  \<open>compare\<close> assumes prepared elements and the generator prepares \<open>e\<close> first. For the
  two-site cluster stored out of order the call returns true, while inversion, an
  operation of the range, sends it to a prepared image strictly greater than its own
  prepared image. The same two sites stored in the other order give false.
\<close>

theorem is_canonical_not_against_prepared_image:
  "ScelIsCanonical_call_range scel_sc copy_apply_cluster unsorted_pair
     [identity_op, inversion_op] \<and>
   prepare scel_sc unsorted_pair = lower_pair \<and>
   prepare scel_sc (copy_apply_cluster inversion_op unsorted_pair) = upper_pair \<and>
   compare scel_sc (prepare scel_sc unsorted_pair)
     (prepare scel_sc (copy_apply_cluster inversion_op unsorted_pair)) \<and>
   \<not> ScelIsCanonical_call_range scel_sc copy_apply_cluster reordered_pair
       [identity_op, inversion_op]"
proof -
  have "\<not> ScelIsCanonical_call_range scel_sc copy_apply_cluster reordered_pair
       [identity_op, inversion_op]"
    by (simp add: ScelIsCanonical_call_range_def less_than_def prepare_reordered_pair Let_def)
      (simp add: pair_eval reordered_pair_def)
  then show ?thesis
    by (simp add: is_canonical_unsorted_pair prepare_unsorted_pair) (simp add: pair_eval)
qed

text \<open>
  C1 at a failing input. For the two-site cluster stored out of order and the group of
  identity and inversion, \<open>ScelIsCanonical\<close> over the supercell's range is true, while
  \<open>ScelCanonicalGenerator\<close> over the same range returns an element that is not equal,
  under the comparator, to the cluster's prepared form: the test compares the cluster as
  handed in, the generator its prepared form.
\<close>

theorem is_canonical_disagrees_with_generator:
  "ScelIsCanonical_call scel_sc copy_apply_cluster inversion_scel unsorted_pair \<and>
   fst (ScelCanonicalGenerator_call scel_sc copy_apply_cluster inversion_scel unsorted_pair)
     = upper_pair \<and>
   prepare scel_sc unsorted_pair = lower_pair \<and>
   \<not> equal_sc scel_sc
       (fst (ScelCanonicalGenerator_call scel_sc copy_apply_cluster inversion_scel
          unsorted_pair))
       (prepare scel_sc unsorted_pair)"
proof -
  have "ScelIsCanonical_call scel_sc copy_apply_cluster inversion_scel unsorted_pair"
    using is_canonical_unsorted_pair by (simp add: ScelIsCanonical_call_def inversion_scel_def)
  moreover have "\<not> equal_sc scel_sc
       (fst (ScelCanonicalGenerator_call scel_sc copy_apply_cluster inversion_scel
          unsorted_pair))
       (prepare scel_sc unsorted_pair)"
    by (simp add: generator_unsorted_pair prepare_unsorted_pair equal_sc_def)
      (simp add: pair_eval)
  ultimately show ?thesis
    by (simp add: generator_unsorted_pair prepare_unsorted_pair)
qed

text \<open>
  C4 at a failing input. The range overload is called with the supercell-periodic
  comparator on a prepared cluster and the range inversion, identity. No operation
  improves on the cluster's prepared form, so it is returned, and \<open>m_to_canonical\<close>
  keeps its initial value, the first operation of the range. Applying that operation to
  the cluster and preparing gives an element that is not equal to the returned one.
\<close>

theorem to_canonical_not_achieving:
  "ScelCanonicalGenerator_call_range scel_sc copy_apply_cluster upper_pair
     [inversion_op, identity_op] = Inr (upper_pair, inversion_op) \<and>
   to_canonical (upper_pair, inversion_op) = inversion_op \<and>
   prepare scel_sc (copy_apply_cluster inversion_op upper_pair) = lower_pair \<and>
   \<not> equal_sc scel_sc
       (prepare scel_sc
          (copy_apply_cluster (to_canonical (upper_pair, inversion_op)) upper_pair))
       upper_pair"
proof -
  have "ScelCanonicalGenerator_call_range scel_sc copy_apply_cluster upper_pair
     [inversion_op, identity_op] = Inr (upper_pair, inversion_op)"
    by (simp add: ScelCanonicalGenerator_call_range_def prepare_upper_pair Let_def)
      (simp add: pair_eval)
  moreover have "\<not> equal_sc scel_sc
       (prepare scel_sc
          (copy_apply_cluster (to_canonical (upper_pair, inversion_op)) upper_pair))
       upper_pair"
    by (simp add: to_canonical_def prepare_upper_pair equal_sc_def) (simp add: pair_eval)
  ultimately show ?thesis by (simp add: to_canonical_def prepare_upper_pair)
qed

end
